theory Spec2Isabelle
  imports Main "HOL-Library.Sublist"
begin

section \<open>The collection lister: \<open>scripts/list_collections.py\<close>\<close>

text \<open>
  The script is a straight line of statements at module level:
  \<^verbatim>\<open>
  with open('/tmp/pb_token.txt', 'r') as f:
      token = f.read().strip()
  response = requests.get(
      'http://localhost:8090/api/collections?perPage=100',
      headers={'Authorization': token}
  )
  data = response.json()
  print("Custom collections:")
  for c in data['items']:
      if not c['name'].startswith('_'):
          print(f"  {c['name']}: {c['id']}")
  print(f"\nTotal: {len([c for c in data['items'] if not c['name'].startswith('_')])} custom collections")
  \<close>
  Every effect of a run is an entry of a trace, every unhandled exception is a value, and
  what the script only consults (the file system, the HTTP library, the interpreter's
  \<open>str\<close>) is a field of the record \<open>world\<close>.
\<close>

subsection \<open>Values\<close>

text \<open>
  What \<open>response.json()\<close> can return: \<open>None\<close>, a bool, a number, a string, a list or a
  dict with string keys. The script never looks inside a number, so their representation
  \<open>'n\<close> is left open. A dict is its list of items in insertion order (the keys of a
  Python dict are distinct). A \<open>char\<close> stands for one code point of the text, those
  below 256.
\<close>

datatype 'n json =
    JNull
  | JBool bool
  | JNum 'n
  | JStr string
  | JArr "'n json list"
  | JObj "(string \<times> 'n json) list"

text \<open>The exceptions that the statements of the script can raise.\<close>

datatype exn =
    FileNotFoundError
  | PermissionError
  | UnicodeDecodeError
  | RequestException
  | JSONDecodeError
  | KeyError string
  | TypeError
  | AttributeError

subsection \<open>The world outside the script\<close>

text \<open>
  A path of the file system names no file (\<open>Absent\<close>), a file that \<open>open\<close> refuses
  (\<open>Denied\<close>), a file that opens but whose \<open>read\<close> raises because its bytes do not
  decode (\<open>Undecodable\<close>), or a file of which \<open>read\<close> returns the text \<open>s\<close>
  (\<open>Text s\<close>).
\<close>

datatype token_file = Absent | Denied | Undecodable | Text string

text \<open>
  Of a response the script uses \<open>json()\<close> only, which raises when the body is not JSON
  (\<open>None\<close> here); the status code is carried along and never read.
\<close>

record 'n response =
  status :: nat
  json_body :: "'n json option"

record 'n world =
  fs :: "string \<Rightarrow> token_file"
  http_get :: "string \<Rightarrow> (string \<times> string) list \<Rightarrow> exn + 'n response"
  py_str :: "'n json \<Rightarrow> string"

text \<open>The observable effects of a run, in the order in which they happen.\<close>

datatype event =
    Open string
  | Close string
  | HttpGet string "(string \<times> string) list"
  | Print string

text \<open>\<open>print\<close> writes its argument and a newline to standard output.\<close>

definition nl :: char where
  "nl = CHR 0x0A"

fun written :: "event \<Rightarrow> string" where
  "written (Print s) = s @ [nl]"
| "written _ = []"

definition stdout :: "event list \<Rightarrow> string" where
  "stdout tr = concat (map written tr)"

fun is_get :: "event \<Rightarrow> bool" where
  "is_get (HttpGet u hs) = True"
| "is_get _ = False"

subsection \<open>Operations of the interpreter that the script applies\<close>

text \<open>
  \<open>str.strip()\<close> without argument removes the leading and the trailing characters for
  which \<open>str.isspace\<close> holds: below 256 these are the code points 9 to 13, 28 to 32, 133
  and 160.
\<close>

definition isspace :: "char \<Rightarrow> bool" where
  "isspace c = (of_char c \<in> set [9, 10, 11, 12, 13, 28, 29, 30, 31, 32, 133, 160 :: nat])"

definition strip :: "string \<Rightarrow> string" where
  "strip s = rev (dropWhile isspace (rev (dropWhile isspace s)))"

text \<open>
  \<open>v[k]\<close> for a string \<open>k\<close>: a dict returns the value or raises \<open>KeyError\<close>; a list and a
  string want integer indices, and the other values are not subscriptable: \<open>TypeError\<close>.
\<close>

fun subscript :: "'n json \<Rightarrow> string \<Rightarrow> exn + 'n json" where
  "subscript (JObj kvs) k = (case map_of kvs k of None \<Rightarrow> Inl (KeyError k) | Some v \<Rightarrow> Inr v)"
| "subscript _ k = Inl TypeError"

text \<open>
  \<open>v.startswith('_')\<close>: only a string has the method, every other value raises
  \<open>AttributeError\<close>.
\<close>

fun startswith_underscore :: "'n json \<Rightarrow> exn + bool" where
  "startswith_underscore (JStr s) = Inr (case s of [] \<Rightarrow> False | c # _ \<Rightarrow> c = CHR ''_'')"
| "startswith_underscore _ = Inl AttributeError"

text \<open>
  \<open>for c in v\<close> and the comprehension iterate over the elements of a list, the keys of a
  dict and the characters of a string; the other values are not iterable.
\<close>

fun iterate :: "'n json \<Rightarrow> exn + 'n json list" where
  "iterate (JArr xs) = Inr xs"
| "iterate (JObj kvs) = Inr (map (\<lambda>kv. JStr (fst kv)) kvs)"
| "iterate (JStr s) = Inr (map (\<lambda>c. JStr [c]) s)"
| "iterate _ = Inl TypeError"

text \<open>A replacement field \<open>{v}\<close> of an f-string: a string as it is, else \<open>str(v)\<close>.\<close>

fun fmt :: "'n world \<Rightarrow> 'n json \<Rightarrow> string" where
  "fmt w (JStr s) = s"
| "fmt w v = py_str w v"

text \<open>The decimal digits of a length, as \<open>{len(...)}\<close> writes them.\<close>

definition digit :: "nat \<Rightarrow> char" where
  "digit d = ''0123456789'' ! d"

fun str_of_nat :: "nat \<Rightarrow> string" where
  "str_of_nat n = (if n < 10 then [digit n] else str_of_nat (n div 10) @ [digit (n mod 10)])"

declare str_of_nat.simps [simp del]

subsection \<open>The statements of the script\<close>

definition token_path :: string where
  "token_path = ''/tmp/pb_token.txt''"

definition url :: string where
  "url = ''http://localhost:8090/api/collections?perPage=100''"

definition header_line :: string where
  "header_line = ''Custom collections:''"

text \<open>
  \<open>with open(...) as f: token = f.read().strip()\<close>. When \<open>open\<close> raises there is no handle;
  once it has returned one, leaving the block closes it, by a normal exit or by an
  exception of \<open>read\<close>.
\<close>

definition load_token :: "'n world \<Rightarrow> event list \<times> (exn + string)" where
  "load_token w =
     (case fs w token_path of
        Absent \<Rightarrow> ([], Inl FileNotFoundError)
      | Denied \<Rightarrow> ([], Inl PermissionError)
      | Undecodable \<Rightarrow> ([Open token_path, Close token_path], Inl UnicodeDecodeError)
      | Text s \<Rightarrow> ([Open token_path, Close token_path], Inr (strip s)))"

text \<open>\<open>requests.get(url, headers={'Authorization': token})\<close>.\<close>

definition fetch :: "'n world \<Rightarrow> string \<Rightarrow> event list \<times> (exn + 'n response)" where
  "fetch w token =
     (let hs = [(''Authorization'', token)]
      in ([HttpGet url hs], http_get w url hs))"

text \<open>The condition \<open>not c['name'].startswith('_')\<close> of the loop and of the comprehension.\<close>

definition is_custom :: "'n json \<Rightarrow> exn + bool" where
  "is_custom c =
     (case subscript c ''name'' of
        Inl e \<Rightarrow> Inl e
      | Inr n \<Rightarrow> (case startswith_underscore n of Inl e \<Rightarrow> Inl e | Inr b \<Rightarrow> Inr (\<not> b)))"

text \<open>The f-string \<open>f"  {c['name']}: {c['id']}"\<close>, its fields evaluated from left to right.\<close>

definition fline :: "'n world \<Rightarrow> 'n json \<Rightarrow> exn + string" where
  "fline w c =
     (case subscript c ''name'' of
        Inl e \<Rightarrow> Inl e
      | Inr n \<Rightarrow>
          (case subscript c ''id'' of
             Inl e \<Rightarrow> Inl e
           | Inr i \<Rightarrow> Inr (''  '' @ fmt w n @ '': '' @ fmt w i)))"

text \<open>
  The body of the \<open>for\<close> loop over the elements still to come: the lines printed, and the
  exception that ended the loop if one did.
\<close>

fun loop :: "'n world \<Rightarrow> 'n json list \<Rightarrow> string list \<times> exn option" where
  "loop w [] = ([], None)"
| "loop w (c # cs) =
     (case is_custom c of
        Inl e \<Rightarrow> ([], Some e)
      | Inr False \<Rightarrow> loop w cs
      | Inr True \<Rightarrow>
          (case fline w c of
             Inl e \<Rightarrow> ([], Some e)
           | Inr l \<Rightarrow> (case loop w cs of (ls, r) \<Rightarrow> (l # ls, r))))"

text \<open>The comprehension \<open>[c for c in ... if not c['name'].startswith('_')]\<close>.\<close>

fun comprehension :: "'n json list \<Rightarrow> exn + 'n json list" where
  "comprehension [] = Inr []"
| "comprehension (c # cs) =
     (case is_custom c of
        Inl e \<Rightarrow> Inl e
      | Inr b \<Rightarrow>
          (case comprehension cs of
             Inl e \<Rightarrow> Inl e
           | Inr ys \<Rightarrow> Inr (if b then c # ys else ys)))"

definition total_line :: "nat \<Rightarrow> string" where
  "total_line n = nl # ''Total: '' @ str_of_nat n @ '' custom collections''"

text \<open>The last \<open>print\<close>: \<open>data['items']\<close> is evaluated and iterated a second time.\<close>

definition print_total :: "'n json \<Rightarrow> event list \<times> exn option" where
  "print_total data =
     (case subscript data ''items'' of
        Inl e \<Rightarrow> ([], Some e)
      | Inr v \<Rightarrow>
          (case iterate v of
             Inl e \<Rightarrow> ([], Some e)
           | Inr cs \<Rightarrow>
               (case comprehension cs of
                  Inl e \<Rightarrow> ([], Some e)
                | Inr ys \<Rightarrow> ([Print (total_line (length ys))], None))))"

text \<open>The three statements after \<open>data = response.json()\<close>.\<close>

definition report :: "'n world \<Rightarrow> 'n json \<Rightarrow> event list \<times> exn option" where
  "report w data =
     (case subscript data ''items'' of
        Inl e \<Rightarrow> ([Print header_line], Some e)
      | Inr v \<Rightarrow>
          (case iterate v of
             Inl e \<Rightarrow> ([Print header_line], Some e)
           | Inr cs \<Rightarrow>
               (case loop w cs of
                  (ls, Some e) \<Rightarrow> (Print header_line # map Print ls, Some e)
                | (ls, None) \<Rightarrow>
                    (case print_total data of
                       (tr, r) \<Rightarrow> (Print header_line # map Print ls @ tr, r)))))"

text \<open>
  The whole script: the trace of its effects and the exception it died of, \<open>None\<close> when
  it ran to its end.
\<close>

definition main :: "'n world \<Rightarrow> event list \<times> exn option" where
  "main w =
     (case load_token w of
        (t1, Inl e) \<Rightarrow> (t1, Some e)
      | (t1, Inr token) \<Rightarrow>
          (case fetch w token of
             (t2, Inl e) \<Rightarrow> (t1 @ t2, Some e)
           | (t2, Inr resp) \<Rightarrow>
               (case json_body resp of
                  None \<Rightarrow> (t1 @ t2, Some JSONDecodeError)
                | Some data \<Rightarrow>
                    (case report w data of (t3, r) \<Rightarrow> (t1 @ t2 @ t3, r)))))"

subsection \<open>What the statements below speak of\<close>

text \<open>A record whose \<open>name\<close> and \<open>id\<close> fields are both present and both strings.\<close>

fun is_record :: "'n json \<Rightarrow> bool" where
  "is_record (JObj kvs) =
     (case map_of kvs ''name'' of
        Some (JStr n) \<Rightarrow> (case map_of kvs ''id'' of Some (JStr i) \<Rightarrow> True | _ \<Rightarrow> False)
      | _ \<Rightarrow> False)"
| "is_record _ = False"

text \<open>The handles still open after a trace that started with the handles \<open>hs\<close> open.\<close>

fun held :: "string list \<Rightarrow> event list \<Rightarrow> string list" where
  "held hs [] = hs"
| "held hs (Open p # tr) = held (p # hs) tr"
| "held hs (Close p # tr) = held (remove1 p hs) tr"
| "held hs (e # tr) = held hs tr"

subsection \<open>Sample worlds and inputs\<close>

text \<open>
  A world whose token file is \<open>f\<close> and whose server answers every request with the status
  \<open>st\<close> and the body \<open>body\<close>; \<open>str\<close> is never consulted on the sample inputs.
\<close>

definition world_with :: "token_file \<Rightarrow> nat \<Rightarrow> 'n json option \<Rightarrow> 'n world" where
  "world_with f st body =
     \<lparr> fs = (\<lambda>p. if p = token_path then f else Absent),
       http_get = (\<lambda>u hs. Inr \<lparr> status = st, json_body = body \<rparr>),
       py_str = (\<lambda>v. []) \<rparr>"

text \<open>A world with the token file \<open>f\<close> and no server listening.\<close>

definition offline_world :: "token_file \<Rightarrow> 'n world" where
  "offline_world f =
     \<lparr> fs = (\<lambda>p. if p = token_path then f else Absent),
       http_get = (\<lambda>u hs. Inl RequestException),
       py_str = (\<lambda>v. []) \<rparr>"

definition record_of :: "string \<Rightarrow> string \<Rightarrow> 'n json" where
  "record_of n i = JObj [(''name'', JStr n), (''id'', JStr i)]"

definition envelope :: "'n json list \<Rightarrow> 'n json" where
  "envelope cs = JObj [(''items'', JArr cs)]"

text \<open>An error answer of the server: a JSON object without \<open>items\<close>.\<close>

definition error_body :: "int json" where
  "error_body =
     JObj [(''code'', JNum 401),
           (''message'', JStr ''The request requires valid authorization token.''),
           (''data'', JObj [])]"

text \<open>Sample inputs: items of a response, and a token file with blanks around the token.\<close>

definition scenario_B :: "int json list" where
  "scenario_B = [record_of ''_superusers'' ''sys1'', record_of ''posts'' ''abc123'']"

definition unnamed_first :: "int json list" where
  "unnamed_first =
     [record_of [] ''x1'', record_of ''_superusers'' ''sys1'', record_of ''posts'' ''abc123'']"

definition mixed_items :: "int json list" where
  "mixed_items =
     [record_of ''zebra'' ''z9'', record_of ''_superusers'' ''sys1'', record_of ''apple'' ''a1'']"

definition padded_token :: string where
  "padded_token = [CHR '' '', CHR 0x09] @ ''abc def'' @ [CHR '' '', nl]"

section \<open>Properties\<close>

subsection \<open>Standard output and the first statements\<close>

lemma main_report:
  assumes "fs w token_path = Text s"
    and "http_get w url [(''Authorization'', strip s)] = Inr resp"
    and "json_body resp = Some data"
  shows "main w =
    ([Open token_path, Close token_path, HttpGet url [(''Authorization'', strip s)]]
       @ fst (report w data), snd (report w data))"
  using assms by (simp add: main_def load_token_def fetch_def split: prod.splits)

lemma stdout_Cons: "stdout (e # tr) = written e @ stdout tr"
  by (simp add: stdout_def)

lemma stdout_Nil: "stdout [] = []"
  by (simp add: stdout_def)

lemma str_of_nat_0: "str_of_nat 0 = ''0''"
  by (simp add: str_of_nat.simps [of 0] digit_def)

lemma str_of_nat_digit: "n < 10 \<Longrightarrow> str_of_nat n = [digit n]"
  by (simp add: str_of_nat.simps [of n])

lemma main_absent: "fs w token_path = Absent \<Longrightarrow> main w = ([], Some FileNotFoundError)"
  by (simp add: main_def load_token_def)

lemma main_denied: "fs w token_path = Denied \<Longrightarrow> main w = ([], Some PermissionError)"
  by (simp add: main_def load_token_def)

lemma main_undecodable:
  "fs w token_path = Undecodable \<Longrightarrow>
     main w = ([Open token_path, Close token_path], Some UnicodeDecodeError)"
  by (simp add: main_def load_token_def)

subsection \<open>The loop, the comprehension and the report\<close>

lemma report_empty:
  assumes "subscript data ''items'' = Inr (JArr [])"
  shows "report w data = ([Print header_line, Print (total_line 0)], None)"
  using assms by (simp add: report_def print_total_def)

lemma loop_append:
  "loop w (xs @ ys) =
     (case loop w xs of
        (ls, Some e) \<Rightarrow> (ls, Some e)
      | (ls, None) \<Rightarrow> (ls @ fst (loop w ys), snd (loop w ys)))"
  by (induction xs) (auto split: sum.splits bool.splits prod.splits option.splits)

lemma comprehension_append:
  "comprehension (xs @ ys) =
     (case comprehension xs of
        Inl e \<Rightarrow> Inl e
      | Inr a \<Rightarrow> (case comprehension ys of Inl e \<Rightarrow> Inl e | Inr b \<Rightarrow> Inr (a @ b)))"
  by (induction xs) (auto split: sum.splits)

lemma loop_ok_comprehension:
  "snd (loop w cs) = None \<Longrightarrow>
     \<exists>ys. comprehension cs = Inr ys \<and> length ys = length (fst (loop w cs))"
  by (induction cs) (auto split: sum.splits bool.splits prod.splits option.splits)

lemma is_record_custom:
  "is_record c \<Longrightarrow> \<exists>b. is_custom c = Inr b"
  by (cases c) (auto simp: is_custom_def split: option.splits json.splits)

lemma is_record_fline:
  "is_record c \<Longrightarrow> \<exists>l. fline w c = Inr l"
  by (cases c) (auto simp: fline_def split: option.splits json.splits)

lemma loop_records:
  "list_all is_record cs \<Longrightarrow>
     snd (loop w cs) = None \<and>
     map Inr (fst (loop w cs)) = map (fline w) (filter (\<lambda>c. is_custom c = Inr True) cs)"
proof (induction cs)
  case Nil
  then show ?case by simp
next
  case (Cons c cs)
  then obtain b l where "is_custom c = Inr b" "fline w c = Inr l"
    using is_record_custom [of c] is_record_fline [of c w] by auto
  with Cons show ?case
    by (cases b) (auto split: prod.splits)
qed

lemma report_ok:
  assumes "subscript data ''items'' = Inr v" and "iterate v = Inr cs"
    and "snd (loop w cs) = None"
  shows "report w data =
    (Print header_line # map Print (fst (loop w cs))
       @ [Print (total_line (length (fst (loop w cs))))], None)"
proof -
  obtain ys where "comprehension cs = Inr ys" "length ys = length (fst (loop w cs))"
    using loop_ok_comprehension [OF assms(3)] by blast
  with assms show ?thesis
    by (cases "loop w cs") (simp add: report_def print_total_def)
qed

lemma report_header:
  "\<exists>tr. fst (report w data) = Print header_line # tr"
  by (auto simp: report_def split: sum.splits prod.splits option.splits)

lemma report_missing:
  "subscript data ''items'' = Inl e \<Longrightarrow> report w data = ([Print header_line], Some e)"
  by (simp add: report_def)

lemma report_prints: "e \<in> set (fst (report w data)) \<Longrightarrow> \<exists>l. e = Print l"
  by (auto simp: report_def print_total_def split: sum.splits prod.splits option.splits)

lemma held_prints: "(\<And>e. e \<in> set tr \<Longrightarrow> \<exists>l. e = Print l) \<Longrightarrow> held hs tr = hs"
proof (induction tr)
  case Nil
  then show ?case by simp
next
  case (Cons e tr)
  then obtain l where "e = Print l" by auto
  with Cons show ?case by simp
qed

lemma main_text:
  assumes "fs w token_path = Text s"
  shows "\<exists>tr. fst (main w) =
        [Open token_path, Close token_path, HttpGet url [(''Authorization'', strip s)]] @ tr
      \<and> (\<forall>e\<in>set tr. \<exists>l. e = Print l)"
proof (cases "http_get w url [(''Authorization'', strip s)]")
  case (Inl e)
  with assms show ?thesis by (simp add: main_def load_token_def fetch_def)
next
  case (Inr resp)
  show ?thesis
  proof (cases "json_body resp")
    case None
    with assms Inr show ?thesis by (simp add: main_def load_token_def fetch_def)
  next
    case (Some data)
    have "\<forall>e\<in>set (fst (report w data)). \<exists>l. e = Print l"
      using report_prints by blast
    then show ?thesis
      using main_report [OF assms Inr Some] by simp
  qed
qed

lemma filter_get_prints: "\<forall>e\<in>set tr. \<exists>l. e = Print l \<Longrightarrow> filter is_get tr = []"
  by (auto simp: filter_empty_conv)

lemma held_main: "held [] (fst (main w)) = []"
proof (cases "fs w token_path")
  case Absent
  then show ?thesis by (simp add: main_absent)
next
  case Denied
  then show ?thesis by (simp add: main_denied)
next
  case Undecodable
  then show ?thesis by (simp add: main_undecodable)
next
  case (Text s)
  then obtain tr where
    "fst (main w) =
       [Open token_path, Close token_path, HttpGet url [(''Authorization'', strip s)]] @ tr"
    and "\<forall>e\<in>set tr. \<exists>l. e = Print l"
    using main_text by blast
  then show ?thesis by (simp add: held_prints)
qed

lemma is_custom_underscore:
  "subscript c ''name'' = Inr (JStr (CHR ''_'' # n)) \<Longrightarrow> is_custom c = Inr False"
  by (simp add: is_custom_def)

lemma loop_skip:
  assumes "is_custom c = Inr False"
  shows "loop w (xs @ c # ys) = loop w (xs @ ys)"
proof -
  have "loop w (c # ys) = loop w ys" using assms by simp
  then show ?thesis by (simp only: loop_append)
qed

lemma comprehension_skip:
  assumes "is_custom c = Inr False"
  shows "comprehension (xs @ c # ys) = comprehension (xs @ ys)"
proof -
  have "comprehension (c # ys) = comprehension ys"
    using assms by (simp split: sum.splits)
  then show ?thesis by (simp only: comprehension_append)
qed

lemma loop_subseq:
  "\<exists>cs'. subseq cs' cs \<and> map Inr (fst (loop w cs)) = map (fline w) cs'
      \<and> list_all (\<lambda>c. is_custom c = Inr True) cs'"
proof (induction cs)
  case Nil
  then show ?case by simp
next
  case (Cons c cs)
  then obtain cs' where h: "subseq cs' cs" "map Inr (fst (loop w cs)) = map (fline w) cs'"
    "list_all (\<lambda>c. is_custom c = Inr True) cs'"
    by blast
  show ?case
  proof (cases "is_custom c")
    case (Inl e)
    then have "fst (loop w (c # cs)) = []" by simp
    then show ?thesis by (intro exI [of _ "[]"]) simp
  next
    case (Inr b)
    show ?thesis
    proof (cases b)
      case False
      with Inr h show ?thesis by (intro exI [of _ cs']) (simp add: list_emb_Cons)
    next
      case True
      show ?thesis
      proof (cases "fline w c")
        case (Inl e)
        with Inr True have "fst (loop w (c # cs)) = []" by simp
        then show ?thesis by (intro exI [of _ "[]"]) simp
      next
        case l: (Inr l)
        with Inr True h show ?thesis
          by (intro exI [of _ "c # cs'"]) (auto split: prod.splits)
      qed
    qed
  qed
qed

lemma report_lines:
  assumes "subscript data ''items'' = Inr v" and "iterate v = Inr cs"
  shows "fst (report w data) =
    Print header_line # map Print (fst (loop w cs))
      @ (if snd (report w data) = None then [Print (total_line (length (fst (loop w cs))))]
         else [])"
proof (cases "snd (loop w cs)")
  case None
  then show ?thesis using report_ok [OF assms None] by simp
next
  case (Some e)
  then show ?thesis using assms by (cases "loop w cs") (simp add: report_def)
qed

lemma main_records:
  assumes "fs w token_path = Text s"
    and "http_get w url [(''Authorization'', strip s)] = Inr resp"
    and "json_body resp = Some data"
    and "subscript data ''items'' = Inr (JArr cs)"
    and "snd (loop w cs) = None"
  shows "main w =
    ([Open token_path, Close token_path, HttpGet url [(''Authorization'', strip s)],
      Print header_line] @ map Print (fst (loop w cs))
       @ [Print (total_line (length (fst (loop w cs))))], None)"
proof -
  have "iterate (JArr cs) = Inr cs" by simp
  from report_ok [OF assms(4) this assms(5)] show ?thesis
    using assms(1-3) by (simp add: main_report)
qed

lemma main_lines:
  assumes "fs w token_path = Text s"
    and "http_get w url [(''Authorization'', strip s)] = Inr resp"
    and "json_body resp = Some data"
    and "subscript data ''items'' = Inr (JArr cs)"
  shows "fst (main w) =
    [Open token_path, Close token_path, HttpGet url [(''Authorization'', strip s)],
     Print header_line] @ map Print (fst (loop w cs))
      @ (if snd (main w) = None then [Print (total_line (length (fst (loop w cs))))] else [])"
proof -
  have "iterate (JArr cs) = Inr cs" by simp
  from report_lines [OF assms(4) this, of w] show ?thesis
    using assms(1-3) by (simp add: main_report)
qed

lemma custom_line_shape:
  assumes "is_custom c = Inr True" and "fline w c = Inr l"
  shows "\<exists>m r. l = ''  '' @ m @ '': '' @ r \<and> (case m of [] \<Rightarrow> True | ch # _ \<Rightarrow> ch \<noteq> CHR ''_'')"
proof -
  obtain v where v: "subscript c ''name'' = Inr v"
    using assms(1) by (auto simp: is_custom_def split: sum.splits)
  then obtain m where m: "v = JStr m" and "case m of [] \<Rightarrow> True | ch # _ \<Rightarrow> ch \<noteq> CHR ''_''"
    using assms(1) by (cases v) (auto simp: is_custom_def split: list.splits)
  moreover obtain i where "l = ''  '' @ fmt w v @ '': '' @ fmt w i"
    using assms(2) v by (auto simp: fline_def split: sum.splits)
  ultimately show ?thesis by auto
qed

lemma loop_line_shape:
  "l \<in> set (fst (loop w cs)) \<Longrightarrow>
     \<exists>m r. l = ''  '' @ m @ '': '' @ r \<and> (case m of [] \<Rightarrow> True | ch # _ \<Rightarrow> ch \<noteq> CHR ''_'')"
proof (induction cs)
  case Nil
  then show ?case by simp
next
  case (Cons c cs)
  show ?case
  proof (cases "is_custom c = Inr True \<and> (\<exists>x. fline w c = Inr x)")
    case True
    then obtain x where x: "is_custom c = Inr True" "fline w c = Inr x" by blast
    then have "fst (loop w (c # cs)) = x # fst (loop w cs)"
      by (simp split: prod.splits)
    with Cons custom_line_shape [OF x] show ?thesis by auto
  next
    case False
    then have "fst (loop w (c # cs)) = [] \<or> fst (loop w (c # cs)) = fst (loop w cs)"
      by (auto split: sum.splits bool.splits)
    with Cons show ?thesis by auto
  qed
qed

lemma underscore_line_not_looped:
  "''  '' @ (CHR ''_'' # n) @ '': '' @ i \<notin> set (fst (loop w cs))"
proof
  assume "''  '' @ (CHR ''_'' # n) @ '': '' @ i \<in> set (fst (loop w cs))"
  from loop_line_shape [OF this] obtain m r where
    "''  '' @ (CHR ''_'' # n) @ '': '' @ i = ''  '' @ m @ '': '' @ r"
    and "case m of [] \<Rightarrow> True | ch # _ \<Rightarrow> ch \<noteq> CHR ''_''"
    by blast
  then show False by (cases m) auto
qed

lemma underscore_line_not_reported:
  assumes "subscript d ''items'' = Inr (JArr cs)"
  shows "Print (''  '' @ (CHR ''_'' # n) @ '': '' @ i) \<notin> set (fst (report w d))"
proof -
  have "iterate (JArr cs) = Inr cs" by simp
  from report_lines [OF assms this, of w]
  have "set (fst (report w d)) \<subseteq>
      {Print header_line} \<union> Print ` set (fst (loop w cs))
        \<union> {Print (total_line (length (fst (loop w cs))))}"
    by (auto split: if_splits)
  moreover have "''  '' @ (CHR ''_'' # n) @ '': '' @ i \<noteq> header_line"
    by (simp add: header_line_def)
  moreover have "''  '' @ (CHR ''_'' # n) @ '': '' @ i \<noteq> total_line k" for k
    by (simp add: total_line_def nl_def)
  ultimately show ?thesis
    using underscore_line_not_looped [of n i w cs] by auto
qed

subsection \<open>Stripping\<close>

text \<open>
  \<open>strip s\<close> is what is left of \<open>s\<close> between a longest prefix and a longest suffix of
  whitespace: \<open>s\<close> is whitespace, \<open>strip s\<close>, whitespace, and \<open>strip s\<close> neither starts
  nor ends with whitespace; there is one such middle part only.
\<close>

lemma strip_decomp:
  "\<exists>pre post. s = pre @ strip s @ post \<and> list_all isspace pre \<and> list_all isspace post"
proof -
  let ?t = "dropWhile isspace s"
  have "s = takeWhile isspace s @ ?t" by simp
  moreover have "?t = strip s @ rev (takeWhile isspace (rev ?t))"
    unfolding strip_def by (metis rev_append rev_rev_ident takeWhile_dropWhile_id)
  moreover have "list_all isspace (takeWhile isspace s)"
    by (simp add: list_all_iff) (meson set_takeWhileD)
  moreover have "list_all isspace (rev (takeWhile isspace (rev ?t)))"
    by (simp add: list_all_iff) (meson set_takeWhileD)
  ultimately show ?thesis by metis
qed

lemma strip_ends:
  "strip s \<noteq> [] \<Longrightarrow> \<not> isspace (hd (strip s)) \<and> \<not> isspace (last (strip s))"
proof -
  let ?t = "dropWhile isspace s"
  let ?u = "dropWhile isspace (rev ?t)"
  assume "strip s \<noteq> []"
  then have u: "?u \<noteq> []" by (simp add: strip_def)
  then have t: "?t \<noteq> []" by (metis dropWhile.simps(1) rev.simps(1))
  have "rev ?t = takeWhile isspace (rev ?t) @ ?u" by simp
  then have "last (rev ?t) = last ?u" using u by (metis last_appendR)
  then have "hd (strip s) = hd ?t"
    using t u by (simp add: strip_def hd_rev last_rev)
  moreover have "\<not> isspace (hd ?t)" using t by (rule hd_dropWhile)
  moreover have "last (strip s) = hd ?u" using u by (simp add: strip_def last_rev)
  moreover have "\<not> isspace (hd ?u)" using u by (rule hd_dropWhile)
  ultimately show ?thesis by simp
qed

lemma strip_unique:
  assumes "s = a @ m @ b" and "list_all isspace a" and "list_all isspace b"
    and "m \<noteq> [] \<Longrightarrow> \<not> isspace (hd m) \<and> \<not> isspace (last m)"
  shows "strip s = m"
proof (cases m)
  case Nil
  then have "list_all isspace s" using assms by simp
  then have d: "dropWhile isspace s = []" by (simp add: list_all_iff)
  show ?thesis unfolding strip_def d using Nil by simp
next
  case (Cons x xs)
  then have h: "\<not> isspace (hd m)" and l: "\<not> isspace (last m)" using assms(4) by auto
  have "dropWhile isspace s = m @ b"
    using assms(1,2) h Cons by (simp add: dropWhile_append3 list_all_iff dropWhile_append2)
  moreover have "dropWhile isspace (rev b @ rev m) = rev m"
  proof -
    have "m \<noteq> []" using Cons by simp
    then have "rev m \<noteq> []" and "\<not> isspace (hd (rev m))"
      using l by (simp_all add: hd_rev)
    then have "dropWhile isspace (rev m) = rev m"
      by (cases "rev m") auto
    moreover have "dropWhile isspace (rev b @ rev m) = dropWhile isspace (rev m)"
      using assms(3) by (intro dropWhile_append2) (simp add: list_all_iff)
    ultimately show ?thesis by simp
  qed
  ultimately show ?thesis by (simp add: strip_def)
qed

subsection \<open>A response without \<open>items\<close>\<close>

text \<open>
  The server answers 401 with a JSON object that has no \<open>items\<close>: the script dies of the
  \<open>KeyError\<close>, and by then the header line is on standard output, which is not empty.
\<close>

theorem error_body_prints_header:
  "subscript error_body ''items'' = Inl (KeyError ''items'')
   \<and> snd (main (world_with (Text ''secret'') 401 (Some error_body))) = Some (KeyError ''items'')
   \<and> stdout (fst (main (world_with (Text ''secret'') 401 (Some error_body)))) =
       ''Custom collections:'' @ [nl]
   \<and> stdout (fst (main (world_with (Text ''secret'') 401 (Some error_body)))) \<noteq> []"
  by (simp add: main_def load_token_def fetch_def world_with_def error_body_def report_def
      stdout_def header_line_def)

text \<open>
  C1, as amended. When the token was read, the server answered and the parsed body has no
  \<open>items\<close> to give (it is a dict without that key, or not a dict at all), the script
  aborts with the exception of the access \<open>data['items']\<close>, a \<open>KeyError\<close> for a dict and a
  \<open>TypeError\<close> for any other value, and its whole standard output is the header line
  \<open>Custom collections:\<close> with its newline.
\<close>

theorem missing_items_aborts_after_header:
  assumes "fs w token_path = Text s"
    and "http_get w url [(''Authorization'', strip s)] = Inr resp"
    and "json_body resp = Some data"
    and "subscript data ''items'' = Inl e"
  shows "snd (main w) = Some e
         \<and> (case data of JObj kvs \<Rightarrow> e = KeyError ''items'' | _ \<Rightarrow> e = TypeError)
         \<and> stdout (fst (main w)) = ''Custom collections:'' @ [nl]"
proof -
  have "report w data = ([Print header_line], Some e)"
    using assms(4) by (rule report_missing)
  then have "snd (main w) = Some e" and "stdout (fst (main w)) = ''Custom collections:'' @ [nl]"
    using assms(1-3) by (simp_all add: main_report stdout_def header_line_def)
  moreover have "case data of JObj kvs \<Rightarrow> e = KeyError ''items'' | _ \<Rightarrow> e = TypeError"
    using assms(4) by (cases data) (auto split: option.splits)
  ultimately show ?thesis by simp
qed

theorem missing_items_aborts_after_header_witness:
  "fs (world_with (Text ''secret'') 401 (Some error_body)) token_path = Text ''secret''
   \<and> subscript error_body ''items'' = Inl (KeyError ''items'')
   \<and> snd (main (world_with (Text ''secret'') 401 (Some error_body))) = Some (KeyError ''items'')
   \<and> stdout (fst (main (world_with (Text ''secret'') 401 (Some error_body)))) =
       ''Custom collections:'' @ [nl]"
proof -
  let ?w = "world_with (Text ''secret'') 401 (Some error_body)"
  have f: "fs ?w token_path = Text ''secret''"
    by (simp add: world_with_def)
  have h: "http_get ?w url [(''Authorization'', strip ''secret'')] =
      Inr \<lparr> status = 401, json_body = Some error_body \<rparr>"
    by (simp add: world_with_def)
  have j: "json_body \<lparr> status = 401, json_body = Some error_body \<rparr> = Some error_body"
    by simp
  have i: "subscript error_body ''items'' = Inl (KeyError ''items'')"
    by (simp add: error_body_def)
  show ?thesis
    using f i missing_items_aborts_after_header [OF f h j i] by simp
qed

text \<open>
  C9. Whatever the parsed body is, the fourth effect of the run, right after the request,
  is the print of the header line: it happens before \<open>data['items']\<close> is evaluated. So
  when the body has no \<open>items\<close> to give, the header line is the last effect of the run and
  the script aborts with the exception of that access.
\<close>

theorem header_precedes_items_access:
  assumes "fs w token_path = Text s"
    and "http_get w url [(''Authorization'', strip s)] = Inr resp"
    and "json_body resp = Some data"
  shows "(\<exists>rest. fst (main w) =
            [Open token_path, Close token_path, HttpGet url [(''Authorization'', strip s)],
             Print header_line] @ rest)
         \<and> (\<forall>e. subscript data ''items'' = Inl e \<longrightarrow>
              main w = ([Open token_path, Close token_path,
                         HttpGet url [(''Authorization'', strip s)], Print header_line], Some e))"
proof -
  obtain tr where "fst (report w data) = Print header_line # tr"
    using report_header by blast
  then have "\<exists>rest. fst (main w) =
      [Open token_path, Close token_path, HttpGet url [(''Authorization'', strip s)],
       Print header_line] @ rest"
    using assms by (simp add: main_report)
  moreover have "main w = ([Open token_path, Close token_path,
      HttpGet url [(''Authorization'', strip s)], Print header_line], Some e)"
    if "subscript data ''items'' = Inl e" for e
    using assms report_missing [OF that] by (simp add: main_report)
  ultimately show ?thesis by blast
qed

theorem header_precedes_items_access_witness:
  "fs (world_with (Text ''secret'') 401 (Some error_body)) token_path = Text ''secret''
   \<and> subscript error_body ''items'' = Inl (KeyError ''items'')
   \<and> main (world_with (Text ''secret'') 401 (Some error_body)) =
       ([Open token_path, Close token_path, HttpGet url [(''Authorization'', ''secret'')],
         Print header_line], Some (KeyError ''items''))"
proof -
  let ?w = "world_with (Text ''secret'') 401 (Some error_body)"
  have f: "fs ?w token_path = Text ''secret''"
    by (simp add: world_with_def)
  have h: "http_get ?w url [(''Authorization'', strip ''secret'')] =
      Inr \<lparr> status = 401, json_body = Some error_body \<rparr>"
    by (simp add: world_with_def)
  have j: "json_body \<lparr> status = 401, json_body = Some error_body \<rparr> = Some error_body"
    by simp
  have i: "subscript error_body ''items'' = Inl (KeyError ''items'')"
    by (simp add: error_body_def)
  have s: "strip ''secret'' = ''secret''"
    by (simp add: strip_def isspace_def)
  show ?thesis
    using f i s header_precedes_items_access [OF f h j] by simp
qed

subsection \<open>The empty listing\<close>

text \<open>
  C2. When the token was read, the server answered and the \<open>items\<close> of the parsed body
  are the empty list, the script runs to its end and its whole standard output is the
  header line, an empty line and the line \<open>Total: 0 custom collections\<close>, each ended by
  a newline (the character \<open>nl\<close>).
\<close>

theorem empty_items_output:
  assumes "fs w token_path = Text s"
    and "http_get w url [(''Authorization'', strip s)] = Inr resp"
    and "json_body resp = Some data"
    and "subscript data ''items'' = Inr (JArr [])"
  shows "stdout (fst (main w)) =
           ''Custom collections:'' @ [nl, nl] @ ''Total: 0 custom collections'' @ [nl]
         \<and> snd (main w) = None"
  using assms
  by (simp add: main_report report_empty stdout_Cons stdout_Nil header_line_def
      total_line_def str_of_nat_0)

theorem empty_items_output_witness:
  "fs (world_with (Text ''secret'') 200 (Some (envelope [] :: int json))) token_path =
     Text ''secret''
   \<and> subscript (envelope [] :: int json) ''items'' = Inr (JArr [])
   \<and> stdout (fst (main (world_with (Text ''secret'') 200 (Some (envelope [] :: int json))))) =
       ''Custom collections:'' @ [nl, nl] @ ''Total: 0 custom collections'' @ [nl]
   \<and> snd (main (world_with (Text ''secret'') 200 (Some (envelope [] :: int json)))) = None"
proof -
  let ?w = "world_with (Text ''secret'') 200 (Some (envelope [] :: int json))"
  have f: "fs ?w token_path = Text ''secret''"
    by (simp add: world_with_def)
  have h: "http_get ?w url [(''Authorization'', strip ''secret'')] =
      Inr \<lparr> status = 200, json_body = Some (envelope []) \<rparr>"
    by (simp add: world_with_def)
  have j: "json_body \<lparr> status = 200, json_body = Some (envelope [] :: int json) \<rparr> =
      Some (envelope [])"
    by simp
  have i: "subscript (envelope [] :: int json) ''items'' = Inr (JArr [])"
    by (simp add: envelope_def)
  show ?thesis
    using f i empty_items_output [OF f h j i] by simp
qed

subsection \<open>System collections\<close>

text \<open>
  C3. A record whose \<open>name\<close> is a string that begins with \<open>_\<close> leaves no mark on the
  report: with the record at any place of \<open>items\<close> and with the record taken out, the
  script prints the same lines and the same total, and ends in the same way; and no
  \<open>print\<close> of the report writes a line made of two blanks, that name, a colon, a blank
  and an \<open>id\<close>. Nothing is asked of the other elements of \<open>items\<close>, nor of the other
  fields of the record.
\<close>

theorem system_record_ignored:
  assumes "subscript c ''name'' = Inr (JStr (CHR ''_'' # n))"
    and "subscript d ''items'' = Inr (JArr (xs @ c # ys))"
    and "subscript d' ''items'' = Inr (JArr (xs @ ys))"
  shows "report w d = report w d'
         \<and> (\<forall>i. Print (''  '' @ (CHR ''_'' # n) @ '': '' @ i) \<notin> set (fst (report w d)))"
proof -
  have "is_custom c = Inr False"
    using assms(1) by (rule is_custom_underscore)
  then have "loop w (xs @ c # ys) = loop w (xs @ ys)"
    and "comprehension (xs @ c # ys) = comprehension (xs @ ys)"
    by (simp_all add: loop_skip comprehension_skip)
  then have "report w d = report w d'"
    using assms(2,3) by (simp add: report_def print_total_def)
  then show ?thesis
    using underscore_line_not_reported [OF assms(2)] by blast
qed

theorem system_record_ignored_witness:
  "subscript (record_of ''_superusers'' ''sys1'' :: int json) ''name'' = Inr (JStr ''_superusers'')
   \<and> report (world_with (Text ''secret'') 200 (Some (envelope scenario_B))) (envelope scenario_B) =
       report (world_with (Text ''secret'') 200 (Some (envelope scenario_B)))
         (envelope [record_of ''posts'' ''abc123''])
   \<and> Print ''  _superusers: sys1'' \<notin>
       set (fst (report (world_with (Text ''secret'') 200 (Some (envelope scenario_B)))
         (envelope scenario_B)))
   \<and> stdout (fst (main (world_with (Text ''secret'') 200 (Some (envelope scenario_B))))) =
       ''Custom collections:'' @ [nl] @ ''  posts: abc123'' @ [nl, nl]
         @ ''Total: 1 custom collections'' @ [nl]"
proof -
  let ?w = "world_with (Text ''secret'') 200 (Some (envelope scenario_B))"
  let ?c = "record_of ''_superusers'' ''sys1'' :: int json"
  let ?p = "record_of ''posts'' ''abc123'' :: int json"
  have n: "subscript ?c ''name'' = Inr (JStr (CHR ''_'' # ''superusers''))"
    by (simp add: record_of_def)
  have d: "subscript (envelope scenario_B) ''items'' = Inr (JArr ([] @ ?c # [?p]))"
    by (simp add: envelope_def scenario_B_def)
  have d': "subscript (envelope [?p]) ''items'' = Inr (JArr ([] @ [?p]))"
    by (simp add: envelope_def)
  note t = system_record_ignored [OF n d d', of ?w]
  have e: "report ?w (envelope scenario_B) = report ?w (envelope [?p])"
    using t by (rule conjunct1)
  have u: "Print ''  _superusers: sys1'' \<notin> set (fst (report ?w (envelope scenario_B)))"
    using t [THEN conjunct2, THEN spec, of "''sys1''"] by simp
  have r: "report ?w (envelope [?p]) =
      ([Print header_line, Print ''  posts: abc123'', Print (total_line 1)], None)"
    by (simp add: report_def print_total_def envelope_def record_of_def is_custom_def fline_def)
  have m: "main ?w = ([Open token_path, Close token_path,
      HttpGet url [(''Authorization'', strip ''secret'')]] @ fst (report ?w (envelope scenario_B)),
      snd (report ?w (envelope scenario_B)))"
  proof (rule main_report)
    show "fs ?w token_path = Text ''secret''"
      by (simp add: world_with_def)
    show "http_get ?w url [(''Authorization'', strip ''secret'')] =
        Inr \<lparr> status = 200, json_body = Some (envelope scenario_B) \<rparr>"
      by (simp add: world_with_def)
    show "json_body \<lparr> status = 200, json_body = Some (envelope scenario_B) \<rparr> =
        Some (envelope scenario_B)"
      by simp
  qed
  show ?thesis
    using n e u r m
    by (simp add: stdout_def header_line_def total_line_def str_of_nat_digit digit_def)
qed

subsection \<open>The total and the lines\<close>

text \<open>
  C4. When every element of \<open>items\<close> is a record with a string \<open>name\<close> and a string \<open>id\<close>,
  the script runs to its end, and the number in its last line \<open>Total: ... custom
  collections\<close> is the number of lines that the loop printed between the header line and
  that last line: the comprehension counts as many records as the loop printed.
\<close>

theorem count_matches_lines:
  assumes "fs w token_path = Text s"
    and "http_get w url [(''Authorization'', strip s)] = Inr resp"
    and "json_body resp = Some data"
    and "subscript data ''items'' = Inr (JArr cs)"
    and "list_all is_record cs"
  shows "main w =
           ([Open token_path, Close token_path, HttpGet url [(''Authorization'', strip s)],
             Print header_line] @ map Print (fst (loop w cs))
              @ [Print (total_line (length (fst (loop w cs))))], None)
         \<and> (\<exists>ys. comprehension cs = Inr ys \<and> length ys = length (fst (loop w cs)))"
proof -
  have ok: "snd (loop w cs) = None"
    using loop_records [OF assms(5)] by simp
  show ?thesis
    using main_records [OF assms(1-4) ok] loop_ok_comprehension [OF ok] by simp
qed

theorem count_matches_lines_witness:
  "fs (world_with (Text ''secret'') 200 (Some (envelope unnamed_first))) token_path =
     Text ''secret''
   \<and> list_all is_record unnamed_first
   \<and> main (world_with (Text ''secret'') 200 (Some (envelope unnamed_first))) =
       ([Open token_path, Close token_path, HttpGet url [(''Authorization'', ''secret'')],
         Print header_line, Print ''  : x1'', Print ''  posts: abc123'',
         Print (nl # ''Total: 2 custom collections'')], None)"
proof -
  let ?w = "world_with (Text ''secret'') 200 (Some (envelope unnamed_first))"
  have f: "fs ?w token_path = Text ''secret''"
    by (simp add: world_with_def)
  have h: "http_get ?w url [(''Authorization'', strip ''secret'')] =
      Inr \<lparr> status = 200, json_body = Some (envelope unnamed_first) \<rparr>"
    by (simp add: world_with_def)
  have j: "json_body \<lparr> status = 200, json_body = Some (envelope unnamed_first) \<rparr> =
      Some (envelope unnamed_first)"
    by simp
  have i: "subscript (envelope unnamed_first) ''items'' = Inr (JArr unnamed_first)"
    by (simp add: envelope_def)
  have r: "list_all is_record unnamed_first"
    by (simp add: unnamed_first_def record_of_def)
  have s: "strip ''secret'' = ''secret''"
    by (simp add: strip_def isspace_def)
  have l: "loop ?w unnamed_first = ([''  : x1'', ''  posts: abc123''], None)"
    by (simp add: unnamed_first_def record_of_def is_custom_def fline_def)
  show ?thesis
    using f r count_matches_lines [OF f h j i r]
    by (simp add: s l total_line_def str_of_nat_digit digit_def)
qed

subsection \<open>The order of the lines\<close>

text \<open>
  C5. For every list \<open>items\<close>, the lines that the loop prints are the f-strings of a
  subsequence of \<open>items\<close>, in the order of \<open>items\<close>, all of them records that pass the
  condition of the loop; they stand between the header line and, when the script runs to
  its end, the total. When every element of \<open>items\<close> is a record with a string \<open>name\<close>
  and a string \<open>id\<close>, that subsequence is all the elements that pass the condition.
\<close>

theorem lines_in_response_order:
  assumes "fs w token_path = Text s"
    and "http_get w url [(''Authorization'', strip s)] = Inr resp"
    and "json_body resp = Some data"
    and "subscript data ''items'' = Inr (JArr cs)"
  shows "\<exists>cs' ls. subseq cs' cs
           \<and> list_all (\<lambda>c. is_custom c = Inr True) cs'
           \<and> map Inr ls = map (fline w) cs'
           \<and> fst (main w) =
               [Open token_path, Close token_path, HttpGet url [(''Authorization'', strip s)],
                Print header_line] @ map Print ls
                 @ (if snd (main w) = None then [Print (total_line (length ls))] else [])
           \<and> (list_all is_record cs \<longrightarrow>
                cs' = filter (\<lambda>c. is_custom c = Inr True) cs \<and> snd (main w) = None)"
proof (cases "list_all is_record cs")
  case True
  let ?cs' = "filter (\<lambda>c. is_custom c = Inr True) cs"
  have ok: "snd (loop w cs) = None"
    and l: "map Inr (fst (loop w cs)) = map (fline w) ?cs'"
    using loop_records [OF True] by simp_all
  have "snd (main w) = None"
    using main_records [OF assms ok] by simp
  moreover have "subseq ?cs' cs" by simp
  moreover have "list_all (\<lambda>c. is_custom c = Inr True) ?cs'"
    by (simp add: list_all_iff)
  ultimately show ?thesis
    using l main_lines [OF assms] by blast
next
  case False
  obtain cs' where "subseq cs' cs" "map Inr (fst (loop w cs)) = map (fline w) cs'"
    "list_all (\<lambda>c. is_custom c = Inr True) cs'"
    using loop_subseq by blast
  then show ?thesis
    using False main_lines [OF assms] by blast
qed

theorem lines_in_response_order_witness:
  "fs (world_with (Text ''secret'') 200 (Some (envelope mixed_items))) token_path =
     Text ''secret''
   \<and> subscript (envelope mixed_items) ''items'' = Inr (JArr mixed_items)
   \<and> list_all is_record mixed_items
   \<and> main (world_with (Text ''secret'') 200 (Some (envelope mixed_items))) =
       ([Open token_path, Close token_path, HttpGet url [(''Authorization'', ''secret'')],
         Print header_line, Print ''  zebra: z9'', Print ''  apple: a1'',
         Print (nl # ''Total: 2 custom collections'')], None)"
proof -
  let ?w = "world_with (Text ''secret'') 200 (Some (envelope mixed_items))"
  have f: "fs ?w token_path = Text ''secret''"
    by (simp add: world_with_def)
  have h: "http_get ?w url [(''Authorization'', strip ''secret'')] =
      Inr \<lparr> status = 200, json_body = Some (envelope mixed_items) \<rparr>"
    by (simp add: world_with_def)
  have j: "json_body \<lparr> status = 200, json_body = Some (envelope mixed_items) \<rparr> =
      Some (envelope mixed_items)"
    by simp
  have i: "subscript (envelope mixed_items) ''items'' = Inr (JArr mixed_items)"
    by (simp add: envelope_def)
  have r: "list_all is_record mixed_items"
    by (simp add: mixed_items_def record_of_def)
  have s: "strip ''secret'' = ''secret''"
    by (simp add: strip_def isspace_def)
  have c: "filter (\<lambda>c. is_custom c = Inr True) mixed_items =
      [record_of ''zebra'' ''z9'', record_of ''apple'' ''a1'']"
    by (simp add: mixed_items_def record_of_def is_custom_def)
  obtain cs' ls where
    "map Inr ls = map (fline ?w) cs'"
    and m: "fst (main ?w) =
       [Open token_path, Close token_path, HttpGet url [(''Authorization'', strip ''secret'')],
        Print header_line] @ map Print ls
         @ (if snd (main ?w) = None then [Print (total_line (length ls))] else [])"
    and "list_all is_record mixed_items \<longrightarrow>
       cs' = filter (\<lambda>c. is_custom c = Inr True) mixed_items \<and> snd (main ?w) = None"
    using lines_in_response_order [OF f h j i] by blast
  with r c have "map Inr ls = map (fline ?w) [record_of ''zebra'' ''z9'', record_of ''apple'' ''a1'']"
    and n: "snd (main ?w) = None"
    by simp_all
  then have "map Inr ls = [Inr ''  zebra: z9'', Inr ''  apple: a1'' :: exn + string]"
    by (simp add: fline_def record_of_def)
  then have "ls = [''  zebra: z9'', ''  apple: a1'']"
    by auto
  with m n have "main ?w =
       ([Open token_path, Close token_path, HttpGet url [(''Authorization'', ''secret'')],
         Print header_line, Print ''  zebra: z9'', Print ''  apple: a1'',
         Print (nl # ''Total: 2 custom collections'')], None)"
    by (simp add: s total_line_def str_of_nat_digit digit_def prod_eq_iff)
  with f i r show ?thesis by simp
qed

subsection \<open>The token file\<close>

text \<open>
  C6. When the token file does not exist, cannot be opened or cannot be read, the script
  ends with the exception of \<open>open\<close> or of \<open>read\<close>; its trace holds no request and no
  effect other than opening and closing that one file, and nothing is printed.
\<close>

theorem token_unavailable_aborts:
  assumes "fs w token_path = Absent \<or> fs w token_path = Denied \<or> fs w token_path = Undecodable"
  shows "snd (main w) =
           Some (case fs w token_path of
                   Absent \<Rightarrow> FileNotFoundError
                 | Denied \<Rightarrow> PermissionError
                 | _ \<Rightarrow> UnicodeDecodeError)
         \<and> filter is_get (fst (main w)) = []
         \<and> set (fst (main w)) \<subseteq> {Open token_path, Close token_path}
         \<and> stdout (fst (main w)) = []"
  using assms by (auto simp: main_absent main_denied main_undecodable stdout_def)

theorem token_unavailable_aborts_witness:
  "fs (world_with Absent 200 (Some (envelope [] :: int json))) token_path = Absent
   \<and> main (world_with Absent 200 (Some (envelope [] :: int json))) = ([], Some FileNotFoundError)
   \<and> fs (world_with Undecodable 200 (Some (envelope [] :: int json))) token_path = Undecodable
   \<and> snd (main (world_with Undecodable 200 (Some (envelope [] :: int json)))) =
       Some UnicodeDecodeError
   \<and> filter is_get (fst (main (world_with Undecodable 200 (Some (envelope [] :: int json))))) = []"
proof -
  let ?a = "world_with Absent 200 (Some (envelope [] :: int json))"
  let ?u = "world_with Undecodable 200 (Some (envelope [] :: int json))"
  have a: "fs ?a token_path = Absent" and u: "fs ?u token_path = Undecodable"
    by (simp_all add: world_with_def)
  have "snd (main ?a) = Some FileNotFoundError" and "set (fst (main ?a)) \<subseteq> {Open token_path, Close token_path}"
    and "filter is_get (fst (main ?a)) = []"
    using token_unavailable_aborts [of ?a] a by simp_all
  moreover have "snd (main ?u) = Some UnicodeDecodeError"
    and "filter is_get (fst (main ?u)) = []"
    using token_unavailable_aborts [of ?u] u by simp_all
  ultimately show ?thesis
    using a u by (simp add: main_absent)
qed

text \<open>
  C7. A run makes at most one request. When the token file holds the text \<open>s\<close> it makes
  exactly one: a GET of \<open>http://localhost:8090/api/collections?perPage=100\<close> whose
  headers are \<open>Authorization\<close> alone, with the value \<open>strip s\<close> and nothing put before it.
\<close>

theorem single_get_request:
  "(\<forall>s. fs w token_path = Text s \<longrightarrow>
      filter is_get (fst (main w)) =
        [HttpGet ''http://localhost:8090/api/collections?perPage=100''
           [(''Authorization'', strip s)]])
   \<and> length (filter is_get (fst (main w))) \<le> 1"
proof -
  have t: "filter is_get (fst (main w)) = [HttpGet url [(''Authorization'', strip s)]]"
    if h: "fs w token_path = Text s" for s
  proof -
    obtain tr where
      "fst (main w) =
         [Open token_path, Close token_path, HttpGet url [(''Authorization'', strip s)]] @ tr"
      and "\<forall>e\<in>set tr. \<exists>l. e = Print l"
      using main_text [OF h] by blast
    then show ?thesis by (simp add: filter_get_prints)
  qed
  have "length (filter is_get (fst (main w))) \<le> 1"
  proof (cases "fs w token_path")
    case (Text s)
    then show ?thesis using t by simp
  qed (simp_all add: main_absent main_denied main_undecodable)
  with t show ?thesis by (simp add: url_def)
qed

theorem single_get_request_witness:
  "fs (offline_world (Text padded_token) :: int world) token_path = Text padded_token
   \<and> strip padded_token = ''abc def''
   \<and> filter is_get (fst (main (offline_world (Text padded_token) :: int world))) =
       [HttpGet ''http://localhost:8090/api/collections?perPage=100''
          [(''Authorization'', ''abc def'')]]"
proof -
  let ?w = "offline_world (Text padded_token) :: int world"
  have f: "fs ?w token_path = Text padded_token"
    by (simp add: offline_world_def)
  have s: "strip padded_token = ''abc def''"
    by (simp add: padded_token_def strip_def isspace_def nl_def)
  show ?thesis
    using f s single_get_request [of ?w] by simp
qed

text \<open>
  C8. When the token file holds the text \<open>s\<close>, the run opens the file, closes it and then
  sends \<open>strip s\<close> as the \<open>Authorization\<close> header, where \<open>s\<close> is whitespace, then
  \<open>strip s\<close>, then whitespace, and \<open>strip s\<close> neither starts nor ends with whitespace.
  When \<open>read\<close> raises, the file is closed all the same before the script dies; and no run
  ends with a handle open.
\<close>

theorem token_stripped_and_handle_released:
  "(\<forall>s. fs w token_path = Text s \<longrightarrow>
      take 3 (fst (main w)) =
        [Open token_path, Close token_path, HttpGet url [(''Authorization'', strip s)]]
      \<and> (\<exists>pre post. s = pre @ strip s @ post \<and> list_all isspace pre \<and> list_all isspace post)
      \<and> (strip s \<noteq> [] \<longrightarrow> \<not> isspace (hd (strip s)) \<and> \<not> isspace (last (strip s))))
   \<and> (fs w token_path = Undecodable \<longrightarrow>
        main w = ([Open token_path, Close token_path], Some UnicodeDecodeError))
   \<and> held [] (fst (main w)) = []"
proof -
  have "take 3 (fst (main w)) =
      [Open token_path, Close token_path, HttpGet url [(''Authorization'', strip s)]]"
    if "fs w token_path = Text s" for s
    using main_text [OF that] by auto
  then show ?thesis
    using strip_decomp strip_ends main_undecodable held_main by blast
qed

theorem token_stripped_and_handle_released_witness:
  "fs (offline_world (Text padded_token) :: int world) token_path = Text padded_token
   \<and> strip padded_token = ''abc def''
   \<and> take 3 (fst (main (offline_world (Text padded_token) :: int world))) =
       [Open token_path, Close token_path, HttpGet url [(''Authorization'', ''abc def'')]]
   \<and> fs (offline_world Undecodable :: int world) token_path = Undecodable
   \<and> main (offline_world Undecodable :: int world) =
       ([Open token_path, Close token_path], Some UnicodeDecodeError)
   \<and> held [] (fst (main (offline_world Undecodable :: int world))) = []"
proof -
  let ?w = "offline_world (Text padded_token) :: int world"
  let ?u = "offline_world Undecodable :: int world"
  have f: "fs ?w token_path = Text padded_token" and u: "fs ?u token_path = Undecodable"
    by (simp_all add: offline_world_def)
  have s: "strip padded_token = ''abc def''"
    by (simp add: padded_token_def strip_def isspace_def nl_def)
  show ?thesis
    using f u s token_stripped_and_handle_released [of ?w]
      token_stripped_and_handle_released [of ?u]
    by simp
qed

subsection \<open>The empty name\<close>

text \<open>
  C10. A record of \<open>items\<close> whose \<open>name\<close> is the empty string passes the condition of the
  loop. Among records with a string \<open>name\<close> and a string \<open>id\<close> it is printed at its place
  as two blanks, a colon, a blank and its \<open>id\<close>, and the total is one more than the number
  of lines printed for the records before and after it.
\<close>

theorem empty_name_is_custom:
  assumes "subscript c ''name'' = Inr (JStr [])"
    and "subscript c ''id'' = Inr v"
    and "fs w token_path = Text s"
    and "http_get w url [(''Authorization'', strip s)] = Inr resp"
    and "json_body resp = Some data"
    and "subscript data ''items'' = Inr (JArr (xs @ c # ys))"
    and "list_all is_record xs"
    and "list_all is_record ys"
  shows "is_custom c = Inr True
         \<and> main w =
           ([Open token_path, Close token_path, HttpGet url [(''Authorization'', strip s)],
             Print header_line] @ map Print (fst (loop w xs))
              @ [Print (''  : '' @ fmt w v)] @ map Print (fst (loop w ys))
              @ [Print (total_line (Suc (length (fst (loop w xs)) + length (fst (loop w ys)))))],
            None)"
proof -
  have c: "is_custom c = Inr True" and l: "fline w c = Inr (''  : '' @ fmt w v)"
    using assms(1,2) by (simp_all add: is_custom_def fline_def)
  have x: "snd (loop w xs) = None" and y: "snd (loop w ys) = None"
    using loop_records [OF assms(7)] loop_records [OF assms(8)] by simp_all
  have "loop w (c # ys) = ((''  : '' @ fmt w v) # fst (loop w ys), None)"
    using c l y by (cases "loop w ys") simp
  then have "loop w (xs @ c # ys) =
      (fst (loop w xs) @ (''  : '' @ fmt w v) # fst (loop w ys), None)"
    using x by (cases "loop w xs") (simp add: loop_append)
  then show ?thesis
    using c main_records [OF assms(3-6)] by simp
qed

theorem empty_name_is_custom_witness:
  "subscript (record_of [] ''x1'' :: int json) ''name'' = Inr (JStr [])
   \<and> subscript (record_of [] ''x1'' :: int json) ''id'' = Inr (JStr ''x1'')
   \<and> fs (world_with (Text ''secret'') 200 (Some (envelope unnamed_first))) token_path =
       Text ''secret''
   \<and> is_custom (record_of [] ''x1'' :: int json) = Inr True
   \<and> stdout (fst (main (world_with (Text ''secret'') 200 (Some (envelope unnamed_first))))) =
       ''Custom collections:'' @ [nl] @ ''  : x1'' @ [nl] @ ''  posts: abc123'' @ [nl, nl]
         @ ''Total: 2 custom collections'' @ [nl]"
proof -
  let ?w = "world_with (Text ''secret'') 200 (Some (envelope unnamed_first))"
  let ?c = "record_of [] ''x1'' :: int json"
  let ?ys = "[record_of ''_superusers'' ''sys1'', record_of ''posts'' ''abc123''] :: int json list"
  have n: "subscript ?c ''name'' = Inr (JStr [])" and v: "subscript ?c ''id'' = Inr (JStr ''x1'')"
    by (simp_all add: record_of_def)
  have f: "fs ?w token_path = Text ''secret''"
    by (simp add: world_with_def)
  have h: "http_get ?w url [(''Authorization'', strip ''secret'')] =
      Inr \<lparr> status = 200, json_body = Some (envelope unnamed_first) \<rparr>"
    by (simp add: world_with_def)
  have j: "json_body \<lparr> status = 200, json_body = Some (envelope unnamed_first) \<rparr> =
      Some (envelope unnamed_first)"
    by simp
  have i: "subscript (envelope unnamed_first) ''items'' = Inr (JArr ([] @ ?c # ?ys))"
    by (simp add: envelope_def unnamed_first_def)
  have x: "list_all is_record ([] :: int json list)" and y: "list_all is_record ?ys"
    by (simp_all add: record_of_def)
  have l: "loop ?w ?ys = ([''  posts: abc123''], None)"
    by (simp add: record_of_def is_custom_def fline_def)
  note t = empty_name_is_custom [OF n v f h j i x y, unfolded l]
  show ?thesis
    using n v f t
    by (simp add: stdout_def header_line_def total_line_def str_of_nat_digit digit_def)
qed

end
